theory Spec2Isabelle
  imports Main
begin

section \<open>Values, messages and agents\<close>

text \<open>
  Payloads are Python dictionaries from string keys to arbitrary values. The values that
  occur in the orchestration core are \<open>None\<close>, strings, integers and price tables
  (a pandas \<open>DataFrame\<close>, kept here as its list of rows; \<open>data.empty\<close> is \<open>rows = []\<close>).
\<close>

datatype pyval = PNone | PStr string | PInt int | PFrame "int list"

type_synonym topic = string
type_synonym payload = "string \<rightharpoonup> pyval"
type_synonym message = "topic \<times> payload \<times> string"

text \<open>
  What a \<open>raise\<close> raises: an instance of \<open>Exception\<close>, which \<open>except Exception\<close>
  catches, or an instance of \<open>BaseException\<close> that is not one (\<open>SystemExit\<close>,
  \<open>KeyboardInterrupt\<close>, \<open>GeneratorExit\<close>), which it lets through.
\<close>

datatype error = Exception string | BaseException string

primrec caught :: "error \<Rightarrow> bool" where
  "caught (Exception n) = True"
| "caught (BaseException n) = False"

text \<open>What is still raised behind a handler \<open>except Exception\<close> that only prints.\<close>

definition except_Exception :: "error option \<Rightarrow> error option" where
  "except_Exception r = (case r of None \<Rightarrow> None | Some e \<Rightarrow> if caught e then None else Some e)"

text \<open>
  \<open>process_message\<close> is abstract in \<open>FinancialAgent\<close>. What a body can do to the bus is
  call \<open>self.send\<close> (any number of times, possibly inside its own \<open>try\<close>), raise, or
  return: \<open>Send t m k h\<close> publishes \<open>m\<close> on \<open>t\<close> and continues as \<open>k\<close> when the
  publish returns and as \<open>h e\<close> when it raises \<open>e\<close> (a body without a \<open>try\<close> around the
  send has \<open>h = Raise\<close>). No agent of the repository subscribes or edits the log from
  a handler, and a body has no constructor for it.
\<close>

datatype proc = Return | Raise error | Send topic payload proc "error \<Rightarrow> proc"

text \<open>
  An agent: its name and its two abstract methods. \<open>should_handle\<close> is ordinary Python
  and may raise, hence the sum type.
\<close>

record agent =
  name :: string
  should_handle :: "topic \<Rightarrow> payload \<Rightarrow> error + bool"
  process_message :: "topic \<Rightarrow> payload \<Rightarrow> string \<Rightarrow> proc"

section \<open>The message bus (core/message_bus.py)\<close>

record MessageBus =
  subscribers :: "topic \<rightharpoonup> agent list"
  messages :: "message list"

text \<open>
  The state threaded through a publish: the bus, and a history of the \<open>receive\<close> calls
  made by the loop of \<open>publish\<close>. An entry \<open>(i, n)\<close> says that the agent named \<open>n\<close> was
  handed the message stored at position \<open>i\<close> of the log. The bus never reads the history.
\<close>

record world =
  bus :: MessageBus
  calls :: "(nat \<times> string) list"

type_synonym outcome = "world \<times> error option"
type_synonym publisher = "world \<Rightarrow> topic \<Rightarrow> payload \<Rightarrow> string \<Rightarrow> outcome option"

definition empty_bus :: MessageBus where
  "empty_bus = \<lparr>subscribers = Map.empty, messages = []\<rparr>"

definition fresh :: world where
  "fresh = \<lparr>bus = empty_bus, calls = []\<rparr>"

definition subscribers_of :: "MessageBus \<Rightarrow> topic \<Rightarrow> agent list" where
  "subscribers_of b t = (case subscribers b t of None \<Rightarrow> [] | Some l \<Rightarrow> l)"

definition subscribe :: "agent \<Rightarrow> topic \<Rightarrow> world \<Rightarrow> world" where
  "subscribe a t w =
     w\<lparr>bus := (bus w)\<lparr>subscribers := (subscribers (bus w))(t \<mapsto> subscribers_of (bus w) t @ [a])\<rparr>\<rparr>"

text \<open>\<open>FinancialAgent.send\<close>: publish with the agent's own name as sender.\<close>

definition send :: "publisher \<Rightarrow> agent \<Rightarrow> topic \<Rightarrow> payload \<Rightarrow> world \<Rightarrow> outcome option" where
  "send pub a t m w = pub w t m (name a)"

text \<open>
  Running a body of \<open>process_message\<close>. The result \<open>None\<close> means that a nested publish did
  not return; \<open>Some (w, Some e)\<close> that the body raised \<open>e\<close>. Changes made to the bus before
  a raise stay made.
\<close>

primrec run :: "publisher \<Rightarrow> agent \<Rightarrow> proc \<Rightarrow> world \<Rightarrow> outcome option" where
  "run pub a Return w = Some (w, None)"
| "run pub a (Raise e) w = Some (w, Some e)"
| "run pub a (Send t m k h) w =
     (case send pub a t m w of
        None \<Rightarrow> None
      | Some (w', None) \<Rightarrow> run pub a k w'
      | Some (w', Some e) \<Rightarrow> run pub a (h e) w')"

text \<open>
  \<open>FinancialAgent.receive\<close>: \<open>should_handle\<close> is called outside the \<open>try\<close>, so what it
  raises leaves \<open>receive\<close>; of what \<open>process_message\<close> raises, the handler
  \<open>except Exception\<close> catches and prints the instances of \<open>Exception\<close>, and the others
  leave \<open>receive\<close> too.
\<close>

definition receive :: "publisher \<Rightarrow> agent \<Rightarrow> topic \<Rightarrow> payload \<Rightarrow> string \<Rightarrow> world \<Rightarrow> outcome option" where
  "receive pub a t m s w =
     (case should_handle a t m of
        Inl e \<Rightarrow> Some (w, Some e)
      | Inr False \<Rightarrow> Some (w, None)
      | Inr True \<Rightarrow>
          (case run pub a (process_message a t m s) w of
             None \<Rightarrow> None
           | Some (w', r) \<Rightarrow> Some (w', except_Exception r)))"

definition note_call :: "nat \<Rightarrow> agent \<Rightarrow> world \<Rightarrow> world" where
  "note_call i a w = w\<lparr>calls := calls w @ [(i, name a)]\<rparr>"

text \<open>
  The loop \<open>for subscriber in self.subscribers[topic]\<close> of \<open>publish\<close>, for the message at
  log position \<open>i\<close>: an exception leaving \<open>receive\<close> leaves the loop and \<open>publish\<close>.
\<close>

primrec fanout :: "publisher \<Rightarrow> nat \<Rightarrow> agent list \<Rightarrow> topic \<Rightarrow> payload \<Rightarrow> string \<Rightarrow> world \<Rightarrow> outcome option" where
  "fanout pub i [] t m s w = Some (w, None)"
| "fanout pub i (a # as) t m s w =
     (case receive pub a t m s (note_call i a w) of
        None \<Rightarrow> None
      | Some (w', Some e) \<Rightarrow> Some (w', Some e)
      | Some (w', None) \<Rightarrow> fanout pub i as t m s w')"

definition append_message :: "message \<Rightarrow> world \<Rightarrow> world" where
  "append_message x w = w\<lparr>bus := (bus w)\<lparr>messages := messages (bus w) @ [x]\<rparr>\<rparr>"

text \<open>
  \<open>MessageBus.publish\<close>. Handlers publish from inside the loop, so the function calls
  itself through \<open>receive\<close>, \<open>process_message\<close> and \<open>send\<close>; the first argument bounds the
  depth of that nesting, and \<open>None\<close> is a call that needs more depth than it was given.
\<close>

primrec publish :: "nat \<Rightarrow> publisher" where
  "publish 0 = (\<lambda>w t m s. None)"
| "publish (Suc n) = (\<lambda>w t m s.
     (let w1 = append_message (t, m, s) w in
      case subscribers (bus w1) t of
        None \<Rightarrow> Some (w1, None)
      | Some subs \<Rightarrow> fanout (publish n) (length (messages (bus w))) subs t m s w1))"


text \<open>
  Reading the history: the agents that were handed the message at position \<open>i\<close>, in the
  order of the calls.
\<close>

definition delivered_to :: "nat \<Rightarrow> (nat \<times> string) list \<Rightarrow> string list" where
  "delivered_to i cs = map snd (filter (\<lambda>c. fst c = i) cs)"

definition new_calls :: "world \<Rightarrow> world \<Rightarrow> (nat \<times> string) list" where
  "new_calls w w' = drop (length (calls w)) (calls w')"

section \<open>The cache (core/cache_manager.py)\<close>

text \<open>
  Time is \<open>datetime.now()\<close> in microseconds since \<open>datetime.min\<close>, so a \<open>datetime\<close> is
  a time from \<open>0\<close> to \<open>datetime_max\<close>; \<open>timedelta(seconds=ttl)\<close> is \<open>1000000 * ttl\<close>
  microseconds and exists between \<open>timedelta.min\<close> and \<open>timedelta.max\<close>.
\<close>

type_synonym time = int

definition datetime_max :: time where
  "datetime_max = 315537897599999999"

definition timedelta_min :: int where
  "timedelta_min = - 86399999913600000000"

definition timedelta_max :: int where
  "timedelta_max = 86399999999999999999"

text \<open>
  Whether \<open>now + timedelta(seconds=ttl)\<close> can be computed: the \<open>timedelta\<close> and the sum
  are in range. Python raises \<open>OverflowError\<close> otherwise.
\<close>

definition representable :: "time \<Rightarrow> int \<Rightarrow> bool" where
  "representable now ttl \<longleftrightarrow>
     timedelta_min \<le> 1000000 * ttl \<and> 1000000 * ttl \<le> timedelta_max \<and>
     0 \<le> now + 1000000 * ttl \<and> now + 1000000 * ttl \<le> datetime_max"

record entry =
  data :: pyval
  expiry :: time

text \<open>
  The file behind the cache, as \<open>_load_cache\<close> meets it: \<open>open\<close> raises (\<open>Unreadable\<close>),
  \<open>pickle.load\<close> raises (\<open>Corrupt\<close>), the unpickled object is not a dictionary of
  entries, so that \<open>_clean_expired\<close> raises on it (\<open>Malformed\<close>), or it is what
  \<open>_save_cache\<close> wrote.
\<close>

datatype disk_file = Unreadable | Corrupt | Malformed | Saved "string \<rightharpoonup> entry"

record CacheManager =
  cache :: "string \<rightharpoonup> entry"
  disk :: "disk_file option"
  writable :: bool

definition clean_expired :: "time \<Rightarrow> CacheManager \<Rightarrow> CacheManager" where
  "clean_expired now c =
     c\<lparr>cache := (\<lambda>k. case cache c k of
                        None \<Rightarrow> None
                      | Some e \<Rightarrow> if expiry e \<le> now then None else Some e)\<rparr>"

text \<open>
  The body of the \<open>try\<close> in \<open>_load_cache\<close>, and \<open>_load_cache\<close> with its handler. What the
  body raises is an \<open>OSError\<close>, a \<open>pickle\<close> error or an \<open>AttributeError\<close>, each an
  instance of \<open>Exception\<close>, so the handler catches it.
\<close>

definition load_body :: "time \<Rightarrow> disk_file \<Rightarrow> CacheManager \<Rightarrow> error + CacheManager" where
  "load_body now f c =
     (case f of
        Unreadable \<Rightarrow> Inl (Exception ''OSError'')
      | Corrupt \<Rightarrow> Inl (Exception ''UnpicklingError'')
      | Malformed \<Rightarrow> Inl (Exception ''AttributeError'')
      | Saved m \<Rightarrow> Inr (clean_expired now (c\<lparr>cache := m\<rparr>)))"

definition load_cache :: "time \<Rightarrow> CacheManager \<Rightarrow> CacheManager" where
  "load_cache now c =
     (case disk c of
        None \<Rightarrow> c
      | Some f \<Rightarrow>
          (case load_body now f c of
             Inl e \<Rightarrow> c\<lparr>cache := Map.empty\<rparr>
           | Inr c' \<Rightarrow> c'))"

text \<open>
  \<open>CacheManager.__new__\<close>: the first construction creates the instance with an empty
  dictionary and loads the file; later constructions return the instance.
\<close>

definition new_CacheManager ::
  "CacheManager option \<Rightarrow> disk_file option \<Rightarrow> bool \<Rightarrow> time \<Rightarrow> CacheManager" where
  "new_CacheManager instance d wr now =
     (case instance of
        None \<Rightarrow> load_cache now \<lparr>cache = Map.empty, disk = d, writable = wr\<rparr>
      | Some c \<Rightarrow> c)"

text \<open>\<open>_save_cache\<close> has no handler: a failing write raises out of the caller.\<close>

definition save_cache :: "CacheManager \<Rightarrow> CacheManager \<times> error option" where
  "save_cache c =
     (if writable c then (c\<lparr>disk := Some (Saved (cache c))\<rparr>, None)
      else (c, Some (Exception ''OSError'')))"

text \<open>
  \<open>get\<close> reads the clock twice: once in \<open>_clean_expired\<close> (\<open>now1\<close>) and once in its own
  test (\<open>now2\<close>). It returns \<open>None\<close> for absence.
\<close>

definition get :: "CacheManager \<Rightarrow> time \<Rightarrow> time \<Rightarrow> string \<Rightarrow> pyval \<times> CacheManager" where
  "get c now1 now2 key =
     (let c' = clean_expired now1 c in
      (case cache c' key of
         None \<Rightarrow> PNone
       | Some e \<Rightarrow> if now2 < expiry e then data e else PNone, c'))"

text \<open>
  \<open>set\<close> builds the entry before it stores it: when the expiry cannot be computed, the
  \<open>OverflowError\<close> leaves \<open>set\<close> and the cache is as it was.
\<close>

definition set' :: "CacheManager \<Rightarrow> time \<Rightarrow> string \<Rightarrow> pyval \<Rightarrow> int \<Rightarrow> CacheManager \<times> error option" where
  "set' c now key v ttl =
     (if representable now ttl then
        save_cache (c\<lparr>cache := (cache c)(key \<mapsto> \<lparr>data = v, expiry = now + 1000000 * ttl\<rparr>)\<rparr>)
      else (c, Some (Exception ''OverflowError'')))"

definition delete :: "CacheManager \<Rightarrow> string \<Rightarrow> CacheManager \<times> error option" where
  "delete c key =
     (if key \<in> dom (cache c) then save_cache (c\<lparr>cache := (cache c)(key := None)\<rparr>)
      else (c, None))"

definition clear :: "CacheManager \<Rightarrow> CacheManager \<times> error option" where
  "clear c = save_cache (c\<lparr>cache := Map.empty\<rparr>)"

text \<open>A history of calls on one cache, each with the clock readings it makes.\<close>

datatype cache_call =
    Set string pyval int time
  | Get string time time
  | Delete string
  | Clear

primrec apply_call :: "CacheManager \<Rightarrow> cache_call \<Rightarrow> CacheManager" where
  "apply_call c (Set key v ttl now) = fst (set' c now key v ttl)"
| "apply_call c (Get key now1 now2) = snd (get c now1 now2 key)"
| "apply_call c (Delete key) = fst (delete c key)"
| "apply_call c Clear = fst (clear c)"

definition apply_calls :: "CacheManager \<Rightarrow> cache_call list \<Rightarrow> CacheManager" where
  "apply_calls c cs = foldl apply_call c cs"

text \<open>
  The calls that may come between a \<open>set\<close> on \<open>key\<close> and a later \<open>get\<close> of it without
  replacing or removing the entry by themselves: writes and deletes of other keys, and
  reads (of any key) whose purge happens no later than \<open>now\<close>.
\<close>

primrec between :: "string \<Rightarrow> time \<Rightarrow> cache_call \<Rightarrow> bool" where
  "between key now (Set key' v ttl ts) = (key' \<noteq> key)"
| "between key now (Get key' now1 now2) = (now1 \<le> now)"
| "between key now (Delete key') = (key' \<noteq> key)"
| "between key now Clear = False"


section \<open>The session (core/trading_session.py)\<close>

record TradingSession =
  symbol :: string
  analysis_type :: string
  sbus :: world
  scache :: CacheManager

definition price_payload :: "string \<Rightarrow> int list \<Rightarrow> payload" where
  "price_payload sy rows = [''symbol'' \<mapsto> PStr sy, ''data'' \<mapsto> PFrame rows]"

text \<open>
  The \<open>try\<close> block of \<open>_get_price_data\<close> with its handler \<open>except Exception\<close>, which
  prints and does nothing else. \<open>history sy period interval\<close> is what
  \<open>yf.Ticker(sy).history(...)\<close> does: raise, or return a table. The block can raise in the
  download, in \<open>cache.set\<close>, and in one of the two publishes (out of a subscriber's
  \<open>receive\<close>).
\<close>

definition fetch_and_publish ::
  "publisher \<Rightarrow> (string \<Rightarrow> string \<Rightarrow> string \<Rightarrow> error + int list) \<Rightarrow> time \<Rightarrow>
   TradingSession \<Rightarrow> (TradingSession \<times> error option) option" where
  "fetch_and_publish pub history now3 ss =
     (let period = (if analysis_type ss = ''short'' then ''60d'' else ''5y'');
          interval = (if analysis_type ss = ''short'' then ''1d'' else ''1wk'')
      in case history (symbol ss) period interval of
           Inl e \<Rightarrow> Some (ss, except_Exception (Some e))
         | Inr rows \<Rightarrow>
             if rows \<noteq> [] then
               (case set' (scache ss) now3 (''price_data_'' @ symbol ss) (PFrame rows) 300 of
                  (c, Some e) \<Rightarrow> Some (ss\<lparr>scache := c\<rparr>, except_Exception (Some e))
                | (c, None) \<Rightarrow>
                    (case pub (sbus ss) ''price_data'' (price_payload (symbol ss) rows) ''System'' of
                       None \<Rightarrow> None
                     | Some (w, r) \<Rightarrow> Some (ss\<lparr>sbus := w, scache := c\<rparr>, except_Exception r)))
             else
               (case pub (sbus ss) ''price_data'' (price_payload (symbol ss) []) ''System'' of
                  None \<Rightarrow> None
                | Some (w, r) \<Rightarrow> Some (ss\<lparr>sbus := w\<rparr>, except_Exception r)))"

text \<open>
  \<open>_get_price_data\<close>. The cache lookup and the publish of a cached table are outside the
  \<open>try\<close>: \<open>data.empty\<close> on a cached value that is not a table raises, and so does a
  publish whose fan-out raises.
\<close>

definition get_price_data ::
  "publisher \<Rightarrow> (string \<Rightarrow> string \<Rightarrow> string \<Rightarrow> error + int list) \<Rightarrow> time \<Rightarrow> time \<Rightarrow> time \<Rightarrow>
   TradingSession \<Rightarrow> (TradingSession \<times> error option) option" where
  "get_price_data pub history now1 now2 now3 ss =
     (let (cached, c) = get (scache ss) now1 now2 (''price_data_'' @ symbol ss);
          ss1 = ss\<lparr>scache := c\<rparr>;
          fetch = fetch_and_publish pub history now3 ss1
      in case cached of
           PNone \<Rightarrow> fetch
         | PFrame rows \<Rightarrow>
             if rows \<noteq> [] then
               (case pub (sbus ss1) ''price_data'' (price_payload (symbol ss) rows) ''System'' of
                  None \<Rightarrow> None
                | Some (w, r) \<Rightarrow> Some (ss1\<lparr>sbus := w\<rparr>, r))
             else fetch
         | _ \<Rightarrow> Some (ss1, Some (Exception ''AttributeError'')))"

text \<open>\<open>_consolidate_analyses\<close>: the placeholders, the scan of the log, the one publish.\<close>

definition placeholders :: "(string \<times> pyval) list" where
  "placeholders =
     [(''news_analysis'', PStr ''No news analysis available''),
      (''technical_analysis'', PStr ''No technical analysis available''),
      (''ownership_analysis'', PStr ''No ownership analysis available''),
      (''economic_analysis'', PStr ''No economic analysis available''),
      (''peer_analysis'', PStr ''No peer analysis available'')]"

definition result_topics :: "string list" where
  "result_topics = map fst placeholders"

text \<open>
  One turn of the loop: \<open>analyses[topic] = msg.get("analysis", analyses[topic])\<close> for a
  topic that is a key of \<open>analyses\<close>.
\<close>

definition collect :: "payload \<Rightarrow> message \<Rightarrow> payload" where
  "collect analyses x =
     (case x of (t, msg, _) \<Rightarrow>
        (case analyses t of
           None \<Rightarrow> analyses
         | Some cur \<Rightarrow> analyses(t \<mapsto> (case msg ''analysis'' of None \<Rightarrow> cur | Some v \<Rightarrow> v))))"

definition consolidated :: "string \<Rightarrow> message list \<Rightarrow> payload" where
  "consolidated sy log = [''symbol'' \<mapsto> PStr sy] ++ foldl collect (map_of placeholders) log"

definition consolidate_analyses ::
  "publisher \<Rightarrow> TradingSession \<Rightarrow> (TradingSession \<times> error option) option" where
  "consolidate_analyses pub ss =
     (case pub (sbus ss) ''analysis_consolidation''
             (consolidated (symbol ss) (messages (bus (sbus ss)))) ''System'' of
        None \<Rightarrow> None
      | Some (w, r) \<Rightarrow> Some (ss\<lparr>sbus := w\<rparr>, r))"

text \<open>
  \<open>get_results\<close>. \<open>next((msg.get(field) for topic, msg, _ in messages if topic == T), d)\<close>
  is the field of the first message on \<open>T\<close> in the log (\<open>None\<close> when that message has no
  such field), and \<open>d\<close> when the log has no message on \<open>T\<close>.
\<close>

primrec next_field :: "message list \<Rightarrow> topic \<Rightarrow> string \<Rightarrow> pyval \<Rightarrow> pyval" where
  "next_field [] T field d = d"
| "next_field (x # xs) T field d =
     (if fst x = T then (case fst (snd x) field of None \<Rightarrow> PNone | Some v \<Rightarrow> v)
      else next_field xs T field d)"

definition get_results :: "TradingSession \<Rightarrow> payload" where
  "get_results ss =
     (let log = messages (bus (sbus ss)) in
      [''symbol'' \<mapsto> PStr (symbol ss),
       ''news_analysis'' \<mapsto> next_field log ''news_analysis'' ''analysis'' (PStr ''No news analysis''),
       ''technical_analysis'' \<mapsto>
          next_field log ''technical_analysis'' ''analysis'' (PStr ''No technical analysis''),
       ''recommendation'' \<mapsto>
          next_field log ''final_recommendation'' ''recommendation'' (PStr ''No recommendation''),
       ''ownership_analysis'' \<mapsto> next_field log ''ownership_analysis'' ''analysis'' PNone,
       ''economic_analysis'' \<mapsto> next_field log ''economic_analysis'' ''analysis'' PNone,
       ''peer_analysis'' \<mapsto> next_field log ''peer_analysis'' ''analysis'' PNone])"

text \<open>
  The most recent message on a topic, and the projection the specification describes:
  the field of that message.
\<close>

definition last_on :: "topic \<Rightarrow> message list \<Rightarrow> payload option" where
  "last_on T log =
     (case filter (\<lambda>x. fst x = T) log of
        [] \<Rightarrow> None
      | y # ys \<Rightarrow> Some (fst (snd (last (y # ys)))))"

definition latest_field :: "message list \<Rightarrow> topic \<Rightarrow> string \<Rightarrow> pyval \<Rightarrow> pyval" where
  "latest_field log T field d =
     (case last_on T log of
        None \<Rightarrow> d
      | Some msg \<Rightarrow> (case msg field of None \<Rightarrow> PNone | Some v \<Rightarrow> v))"

text \<open>
  The field of the last message on a topic that carries the field: what the scan of
  \<open>_consolidate_analyses\<close> ends with.
\<close>

definition last_with :: "string \<Rightarrow> topic \<Rightarrow> message list \<Rightarrow> pyval option" where
  "last_with field T log =
     (case filter (\<lambda>x. fst x = T \<and> fst (snd x) field \<noteq> None) log of
        [] \<Rightarrow> None
      | y # ys \<Rightarrow> fst (snd (last (y # ys))) field)"

section \<open>Agents used in the scenarios\<close>

text \<open>
  The test agent that the ping scenario describes: on \<open>ping\<close> it sends \<open>pong\<close> with
  \<open>{"n": payload["n"] + 1}\<close>; \<open>payload["n"]\<close> raises on a payload without an integer
  \<open>n\<close>.
\<close>

definition ping_agent :: "string \<Rightarrow> agent" where
  "ping_agent nm =
     \<lparr>name = nm,
      should_handle = (\<lambda>t m. Inr (t = ''ping'')),
      process_message = (\<lambda>t m s.
        case m ''n'' of
          Some (PInt n) \<Rightarrow> Send ''pong'' [''n'' \<mapsto> PInt (n + 1)] Return Raise
        | Some _ \<Rightarrow> Raise (Exception ''TypeError'')
        | None \<Rightarrow> Raise (Exception ''KeyError''))\<rparr>"

text \<open>An agent that handles every topic by sending one fixed message.\<close>

definition relay :: "string \<Rightarrow> topic \<Rightarrow> payload \<Rightarrow> agent" where
  "relay nm t' m' =
     \<lparr>name = nm,
      should_handle = (\<lambda>t m. Inr True),
      process_message = (\<lambda>t m s. Send t' m' Return Raise)\<rparr>"

text \<open>
  An agent whose \<open>process_message\<close> raises an \<open>Exception\<close>, one whose \<open>process_message\<close>
  calls \<open>sys.exit()\<close>, and one whose \<open>should_handle\<close> raises on a payload without a
  \<open>symbol\<close>.
\<close>

definition faulty :: "string \<Rightarrow> agent" where
  "faulty nm =
     \<lparr>name = nm,
      should_handle = (\<lambda>t m. Inr True),
      process_message = (\<lambda>t m s. Raise (Exception ''boom''))\<rparr>"

definition fatal :: "string \<Rightarrow> agent" where
  "fatal nm =
     \<lparr>name = nm,
      should_handle = (\<lambda>t m. Inr True),
      process_message = (\<lambda>t m s. Raise (BaseException ''SystemExit''))\<rparr>"

definition picky :: "string \<Rightarrow> agent" where
  "picky nm =
     \<lparr>name = nm,
      should_handle = (\<lambda>t m. case m ''symbol'' of
                                None \<Rightarrow> Inl (Exception ''KeyError'')
                              | Some v \<Rightarrow> Inr (v = PStr ''AAPL'')),
      process_message = (\<lambda>t m s. Return)\<rparr>"

section \<open>Invariants of a publish\<close>

definition agent_names :: "MessageBus \<Rightarrow> string set" where
  "agent_names b = {name a |a l. l \<in> ran (subscribers b) \<and> a \<in> set l}"

text \<open>
  \<open>grows N i w w'\<close>: the subscription table is unchanged, the log and the call history
  are extended, the new messages were sent under a name in \<open>N\<close>, and each new call hands
  over a message at position \<open>i\<close> or later.
\<close>

definition grows :: "string set \<Rightarrow> nat \<Rightarrow> world \<Rightarrow> world \<Rightarrow> bool" where
  "grows N i w w' \<longleftrightarrow>
     subscribers (bus w') = subscribers (bus w) \<and>
     (\<exists>ms. messages (bus w') = messages (bus w) @ ms \<and> (\<forall>x\<in>set ms. snd (snd x) \<in> N)) \<and>
     (\<exists>cs. calls w' = calls w @ cs \<and> (\<forall>c\<in>set cs. i \<le> fst c))"

definition sound_pub :: "publisher \<Rightarrow> bool" where
  "sound_pub pub \<longleftrightarrow>
     (\<forall>w t m s w' r. pub w t m s = Some (w', r) \<longrightarrow>
        grows (insert s (agent_names (bus w))) (length (messages (bus w))) w w')"


text \<open>
  What the loop of \<open>publish\<close> leaves behind when it is left with outcome \<open>out\<close>: it has
  called \<open>receive\<close> on the first \<open>k\<close> subscribers, in order, on all of them when it
  ends normally and on at least one when it ends with an exception.
\<close>

definition fan_result :: "string set \<Rightarrow> nat \<Rightarrow> agent list \<Rightarrow> world \<Rightarrow> outcome \<Rightarrow> bool" where
  "fan_result N i subs w out \<longleftrightarrow>
     subscribers (bus (fst out)) = subscribers (bus w) \<and>
     (\<exists>ms. messages (bus (fst out)) = messages (bus w) @ ms \<and> (\<forall>x\<in>set ms. snd (snd x) \<in> N)) \<and>
     (\<exists>cs k. calls (fst out) = calls w @ cs \<and> (\<forall>c\<in>set cs. i \<le> fst c) \<and>
        k \<le> length subs \<and> delivered_to i cs = map name (take k subs) \<and>
        (snd out = None \<longrightarrow> k = length subs) \<and> (snd out \<noteq> None \<longrightarrow> 0 < k))"

section \<open>Reactions that settle\<close>

text \<open>
  \<open>sends_below rank r nm p\<close>: every message that the body \<open>p\<close> of the agent named \<open>nm\<close>
  can send has a rank below \<open>r\<close>. A bus settles under \<open>rank\<close> when every handler reacts to
  a message only with messages of lower rank: then the nesting of publishes is bounded by
  the rank of the first message.
\<close>

primrec sends_below :: "(message \<Rightarrow> nat) \<Rightarrow> nat \<Rightarrow> string \<Rightarrow> proc \<Rightarrow> bool" where
  "sends_below rank r nm Return = True"
| "sends_below rank r nm (Raise e) = True"
| "sends_below rank r nm (Send t m k h) =
     (rank (t, m, nm) < r \<and> sends_below rank r nm k \<and> (\<forall>e. sends_below rank r nm (h e)))"

definition settles :: "(message \<Rightarrow> nat) \<Rightarrow> MessageBus \<Rightarrow> bool" where
  "settles rank b \<longleftrightarrow>
     (\<forall>t m s. \<forall>a\<in>set (subscribers_of b t).
        should_handle a t m = Inr True \<longrightarrow>
        sends_below rank (rank (t, m, s)) (name a) (process_message a t m s))"




text \<open>
  What the induction on the depth carries about the publisher of the nested sends, on the
  worlds with subscription table \<open>S\<close>: it returns on every message of rank below \<open>r\<close>;
  it raises nothing but instances of \<open>Exception\<close>.
\<close>

definition returns_below :: "publisher \<Rightarrow> (topic \<rightharpoonup> agent list) \<Rightarrow> (message \<Rightarrow> nat) \<Rightarrow> nat \<Rightarrow> bool" where
  "returns_below pub S rank r \<longleftrightarrow>
     (\<forall>w t m s. subscribers (bus w) = S \<longrightarrow> rank (t, m, s) < r \<longrightarrow> (\<exists>out. pub w t m s = Some out))"


section \<open>Invariant of a cached entry\<close>

text \<open>
  Between a \<open>set\<close> of \<open>v\<close> with expiry \<open>ex\<close> and a \<open>get\<close> at \<open>now\<close>: the entry is still
  there, or it was purged, which happens only at or after its expiry.
\<close>

definition held :: "pyval \<Rightarrow> time \<Rightarrow> string \<Rightarrow> time \<Rightarrow> CacheManager \<Rightarrow> bool" where
  "held v ex key now c \<longleftrightarrow>
     cache c key = Some \<lparr>data = v, expiry = ex\<rparr> \<or> (cache c key = None \<and> ex \<le> now)"

section \<open>Scenarios\<close>

text \<open>Small sessions on which the theorems below are exercised.\<close>

definition ask :: payload where
  "ask = [''symbol'' \<mapsto> PStr ''AAPL'']"

definition memo :: "string \<Rightarrow> payload" where
  "memo txt = [''analysis'' \<mapsto> PStr txt]"

definition logged :: "message list \<Rightarrow> (nat \<times> string) list \<Rightarrow> world \<Rightarrow> world" where
  "logged ms cs w = w\<lparr>bus := (bus w)\<lparr>messages := ms\<rparr>, calls := cs\<rparr>"

definition two_desks :: world where
  "two_desks =
     subscribe (relay ''second'' ''peer_analysis'' (memo ''B'')) ''news_request''
       (subscribe (relay ''first'' ''news_analysis'' (memo ''A'')) ''news_request'' fresh)"

definition three_desks :: world where
  "three_desks =
     subscribe (relay ''third'' ''peer_analysis'' (memo ''C'')) ''news_request''
       (subscribe (faulty ''second'') ''news_request''
          (subscribe (relay ''first'' ''news_analysis'' (memo ''A'')) ''news_request'' fresh))"

definition picky_desks :: world where
  "picky_desks =
     subscribe (relay ''third'' ''peer_analysis'' (memo ''C'')) ''news_request''
       (subscribe (picky ''second'') ''news_request''
          (subscribe (relay ''first'' ''news_analysis'' (memo ''A'')) ''news_request'' fresh))"



definition no_symbol :: payload where
  "no_symbol = [''ticker'' \<mapsto> PStr ''AAPL'']"

definition picky_desks_after :: world where
  "picky_desks_after =
     logged [(''news_request'', no_symbol, ''System''), (''news_analysis'', memo ''A'', ''first'')]
            [(0, ''first''), (0, ''second'')] picky_desks"



definition nested_desks :: world where
  "nested_desks =
     subscribe (relay ''c'' ''deep'' Map.empty) ''pong''
       (subscribe (relay ''b'' ''late'' Map.empty) ''ping''
          (subscribe (relay ''a'' ''pong'' Map.empty) ''ping'' fresh))"

definition no_cache :: CacheManager where
  "no_cache = \<lparr>cache = Map.empty, disk = None, writable = True\<rparr>"

definition quotes :: "cache_call list" where
  "quotes = [Set ''y'' (PStr ''w'') 5 10, Get ''x'' 1500000 1500001, Delete ''y'', Get ''y'' 1999999 1999999]"

definition market_desk :: world where
  "market_desk = subscribe (relay ''MarketAnalyst'' ''technical_analysis'' (memo ''No price data available'')) ''price_data'' fresh"

definition aapl :: TradingSession where
  "aapl = \<lparr>symbol = ''AAPL'', analysis_type = ''short'', sbus = market_desk, scache = no_cache\<rparr>"

definition offline :: "string \<Rightarrow> string \<Rightarrow> string \<Rightarrow> error + int list" where
  "offline sy period interval = Inl (Exception ''ConnectionError'')"

definition delisted :: "string \<Rightarrow> string \<Rightarrow> string \<Rightarrow> error + int list" where
  "delisted sy period interval = Inr []"

definition two_runs :: "message list" where
  "two_runs =
     [(''news_analysis'', memo ''old'', ''NewsAnalyst''),
      (''technical_analysis'', memo ''flat'', ''MarketAnalyst''),
      (''news_analysis'', memo ''new'', ''NewsAnalyst'')]"

definition strategy_desk :: world where
  "strategy_desk =
     logged two_runs []
       (subscribe (relay ''StrategyAnalyst'' ''final_recommendation'' [''recommendation'' \<mapsto> PStr ''HOLD''])
          ''analysis_consolidation'' fresh)"

definition closing :: TradingSession where
  "closing = \<lparr>symbol = ''AAPL'', analysis_type = ''short'', sbus = strategy_desk, scache = no_cache\<rparr>"

definition rerun :: TradingSession where
  "rerun = aapl\<lparr>sbus := logged two_runs [] fresh\<rparr>"

definition first_round :: "topic \<Rightarrow> message \<Rightarrow> nat" where
  "first_round t0 x = (if fst x = t0 then 1 else 0)"







definition stale_log :: "message list" where
  "stale_log =
     [(''news_analysis'', memo ''old'', ''NewsAnalyst''),
      (''news_analysis'', ask, ''NewsAnalyst'')]"

section \<open>Every completed publish\<close>

lemma grows_refl: "grows N i w w"
  by (simp add: grows_def)

lemma grows_trans: "grows N i w w1 \<Longrightarrow> grows N i w1 w2 \<Longrightarrow> grows N i w w2"
  unfolding grows_def by (elim conjE exE) auto

lemma grows_mono: "grows N i w w' \<Longrightarrow> N \<subseteq> N' \<Longrightarrow> j \<le> i \<Longrightarrow> grows N' j w w'"
  unfolding grows_def by (elim conjE exE) (auto intro: order_trans)

lemma agent_names_cong: "subscribers b' = subscribers b \<Longrightarrow> agent_names b' = agent_names b"
  by (simp add: agent_names_def)

lemma grows_names: "grows N i w w' \<Longrightarrow> agent_names (bus w') = agent_names (bus w)"
  by (rule agent_names_cong) (simp add: grows_def)

lemma grows_length: "grows N i w w' \<Longrightarrow> length (messages (bus w)) \<le> length (messages (bus w'))"
  by (auto simp: grows_def)

lemma run_grows:
  "sound_pub pub \<Longrightarrow> run pub a p w = Some (w', r) \<Longrightarrow>
   grows (insert (name a) (agent_names (bus w))) (length (messages (bus w))) w w'"
proof (induction p arbitrary: w)
  case Return
  then show ?case by (simp add: grows_refl)
next
  case (Raise e)
  then show ?case by (simp add: grows_refl)
next
  case (Send t m k h)
  let ?N = "insert (name a) (agent_names (bus w))"
  let ?i = "length (messages (bus w))"
  from Send.prems(2) obtain w1 r1 where p: "pub w t m (name a) = Some (w1, r1)"
    by (auto simp: send_def split: option.splits)
  with Send.prems(1) have g1: "grows ?N ?i w w1" unfolding sound_pub_def by blast
  have rest: "run pub a (case r1 of None \<Rightarrow> k | Some e \<Rightarrow> h e) w1 = Some (w', r)"
    using p Send.prems(2) by (cases r1) (simp_all add: send_def)
  have "grows (insert (name a) (agent_names (bus w1))) (length (messages (bus w1))) w1 w'"
  proof (cases r1)
    case None
    with rest Send.IH(1) Send.prems(1) show ?thesis by simp
  next
    case (Some e)
    with rest have "run pub a (h e) w1 = Some (w', r)" by simp
    with Send.IH(2) [of "h e"] Send.prems(1) show ?thesis by blast
  qed
  then have "grows ?N ?i w1 w'"
    using grows_names [OF g1] grows_length [OF g1] by (auto elim: grows_mono)
  with g1 show ?case by (rule grows_trans)
qed

lemma receive_grows:
  assumes "sound_pub pub" and "receive pub a t m s w = Some (w', r)"
  shows "grows (insert (name a) (agent_names (bus w))) (length (messages (bus w))) w w'"
proof (cases "should_handle a t m = Inr True")
  case True
  with assms(2) obtain r' where "run pub a (process_message a t m s) w = Some (w', r')"
    by (auto simp: receive_def split: option.splits)
  with assms(1) show ?thesis by (rule run_grows)
next
  case False
  with assms(2) have "w' = w"
    by (auto simp: receive_def split: sum.splits bool.splits)
  then show ?thesis by (simp add: grows_refl)
qed

lemma delivered_to_later: "\<forall>c\<in>set cs. i < fst c \<Longrightarrow> delivered_to i cs = []"
  by (induction cs) (auto simp: delivered_to_def)

lemma delivered_to_Cons:
  "delivered_to i ((i, n) # cs) = n # delivered_to i cs"
  by (simp add: delivered_to_def)

lemma delivered_to_append:
  "delivered_to i (cs @ cs') = delivered_to i cs @ delivered_to i cs'"
  by (simp add: delivered_to_def)

lemma fanout_result:
  assumes pub: "sound_pub pub"
  shows "i < length (messages (bus w)) \<Longrightarrow> name ` set subs \<subseteq> N \<Longrightarrow> agent_names (bus w) \<subseteq> N \<Longrightarrow>
         fanout pub i subs t m s w = Some out \<Longrightarrow> fan_result N i subs w out"
proof (induction subs arbitrary: w)
  case Nil
  then show ?case by (auto simp: fan_result_def delivered_to_def)
next
  case (Cons a as)
  let ?w0 = "note_call i a w"
  from Cons.prems(4) obtain w1 r1 where rc: "receive pub a t m s ?w0 = Some (w1, r1)"
    by (auto split: option.splits)
  have "grows (insert (name a) (agent_names (bus ?w0))) (length (messages (bus ?w0))) ?w0 w1"
    using pub rc by (rule receive_grows)
  then have "grows N (length (messages (bus w))) ?w0 w1"
    using Cons.prems(2,3) by (auto simp: note_call_def elim: grows_mono)
  then obtain ms cs where
    sub1: "subscribers (bus w1) = subscribers (bus w)" and
    ms1: "messages (bus w1) = messages (bus w) @ ms" and
    snd1: "\<forall>x\<in>set ms. snd (snd x) \<in> N" and
    cs1: "calls w1 = calls w @ (i, name a) # cs" and
    late: "\<forall>c\<in>set cs. length (messages (bus w)) \<le> fst c"
    by (auto simp: grows_def note_call_def)
  from late Cons.prems(1) have late': "\<forall>c\<in>set cs. i < fst c" by auto
  then have none: "delivered_to i cs = []" by (rule delivered_to_later)
  have first: "delivered_to i ((i, name a) # cs) = [name a]"
    using none by (simp add: delivered_to_Cons)
  have le: "\<forall>c\<in>set ((i, name a) # cs). i \<le> fst c"
    using late' by auto
  show ?case
  proof (cases r1)
    case (Some e)
    with rc Cons.prems(4) have out: "out = (w1, Some e)" by simp
    have "delivered_to i ((i, name a) # cs) = map name (take 1 (a # as))"
      using first by simp
    with out sub1 ms1 snd1 cs1 le show ?thesis
      unfolding fan_result_def
      by (intro conjI exI [of _ ms] exI [of _ "(i, name a) # cs"] exI [of _ "1::nat"]) simp_all
  next
    case None
    with rc Cons.prems(4) have f: "fanout pub i as t m s w1 = Some out" by simp
    from Cons.prems(1) ms1 have i1: "i < length (messages (bus w1))" by simp
    from Cons.prems(2) have n1: "name ` set as \<subseteq> N" by auto
    from Cons.prems(3) agent_names_cong [OF sub1] have n2: "agent_names (bus w1) \<subseteq> N"
      by simp
    from Cons.IH [OF i1 n1 n2 f] have fr: "fan_result N i as w1 out" .
    then obtain ms' cs' k where
      a1: "subscribers (bus (fst out)) = subscribers (bus w1)" and
      a2: "messages (bus (fst out)) = messages (bus w1) @ ms'" and
      a2': "\<forall>x\<in>set ms'. snd (snd x) \<in> N" and
      a3: "calls (fst out) = calls w1 @ cs'" and
      a4: "\<forall>c\<in>set cs'. i \<le> fst c" and
      a5: "k \<le> length as" "delivered_to i cs' = map name (take k as)" and
      a6: "snd out = None \<longrightarrow> k = length as"
      by (auto simp: fan_result_def)
    have b: "messages (bus (fst out)) = messages (bus w) @ (ms @ ms')"
      using a2 ms1 by simp
    have b': "\<forall>x\<in>set (ms @ ms'). snd (snd x) \<in> N"
      using snd1 a2' by auto
    have c: "calls (fst out) = calls w @ (((i, name a) # cs) @ cs')"
      using a3 cs1 by simp
    have d: "delivered_to i (((i, name a) # cs) @ cs') = map name (take (Suc k) (a # as))"
      using first a5(2) by (simp only: delivered_to_append) simp
    have e: "\<forall>c\<in>set (((i, name a) # cs) @ cs'). i \<le> fst c"
      using le a4 by auto
    have g: "Suc k \<le> length (a # as)" "snd out = None \<longrightarrow> Suc k = length (a # as)"
      using a5(1) a6 by simp_all
    show ?thesis
      unfolding fan_result_def
      using a1 sub1 b b' c d e g
      by (intro conjI exI [of _ "ms @ ms'"] exI [of _ "((i, name a) # cs) @ cs'"] exI [of _ "Suc k"])
         simp_all
  qed
qed

lemma subscribers_named:
  "subscribers b t = Some subs \<Longrightarrow> name ` set subs \<subseteq> agent_names b"
  by (auto simp: agent_names_def ran_def)

lemma publish_fan:
  assumes "sound_pub (publish n)" and "publish (Suc n) w t m s = Some (w', r)"
  shows "fan_result (agent_names (bus w)) (length (messages (bus w))) (subscribers_of (bus w) t)
           (append_message (t, m, s) w) (w', r)"
proof (cases "subscribers (bus w) t")
  case None
  with assms(2) have "w' = append_message (t, m, s) w" "r = None"
    by (simp_all add: Let_def append_message_def)
  with None show ?thesis
    by (simp add: fan_result_def subscribers_of_def delivered_to_def)
next
  case (Some subs)
  let ?w1 = "append_message (t, m, s) w"
  from Some assms(2)
  have f: "fanout (publish n) (length (messages (bus w))) subs t m s ?w1 = Some (w', r)"
    by (simp add: Let_def append_message_def)
  have i: "length (messages (bus w)) < length (messages (bus ?w1))"
    by (simp add: append_message_def)
  have n1: "name ` set subs \<subseteq> agent_names (bus w)"
    using Some by (rule subscribers_named)
  have n2: "agent_names (bus ?w1) \<subseteq> agent_names (bus w)"
    by (simp add: append_message_def agent_names_def)
  from fanout_result [OF assms(1) i n1 n2 f] Some show ?thesis
    by (simp add: subscribers_of_def)
qed

lemma publish_sound: "sound_pub (publish n)"
proof (induction n)
  case 0
  show ?case by (simp add: sound_pub_def)
next
  case (Suc n)
  show ?case
    unfolding sound_pub_def
  proof (intro allI impI)
    fix w t m s w' r
    assume "publish (Suc n) w t m s = Some (w', r)"
    with Suc have "fan_result (agent_names (bus w)) (length (messages (bus w)))
        (subscribers_of (bus w) t) (append_message (t, m, s) w) (w', r)"
      by (rule publish_fan)
    then show "grows (insert s (agent_names (bus w))) (length (messages (bus w))) w w'"
      by (auto simp: fan_result_def grows_def append_message_def)
  qed
qed

text \<open>The shape of every completed publish.\<close>

lemma publish_result:
  assumes p: "publish n w t m s = Some (w', r)"
  shows "\<exists>ms cs k. subscribers (bus w') = subscribers (bus w) \<and>
           messages (bus w') = messages (bus w) @ (t, m, s) # ms \<and>
           (\<forall>x\<in>set ms. snd (snd x) \<in> agent_names (bus w)) \<and>
           calls w' = calls w @ cs \<and>
           k \<le> length (subscribers_of (bus w) t) \<and>
           delivered_to (length (messages (bus w))) cs = map name (take k (subscribers_of (bus w) t)) \<and>
           (r = None \<longrightarrow> k = length (subscribers_of (bus w) t)) \<and> (r \<noteq> None \<longrightarrow> 0 < k)"
proof (cases n)
  case 0
  with p show ?thesis by simp
next
  case (Suc j)
  with p have "fan_result (agent_names (bus w)) (length (messages (bus w)))
      (subscribers_of (bus w) t) (append_message (t, m, s) w) (w', r)"
    using publish_fan [OF publish_sound] by blast
  then obtain ms cs k where
    "subscribers (bus w') = subscribers (bus w)"
    "messages (bus w') = messages (bus w) @ (t, m, s) # ms"
    "\<forall>x\<in>set ms. snd (snd x) \<in> agent_names (bus w)"
    "calls w' = calls w @ cs"
    "k \<le> length (subscribers_of (bus w) t)"
    "delivered_to (length (messages (bus w))) cs = map name (take k (subscribers_of (bus w) t))"
    "r = None \<longrightarrow> k = length (subscribers_of (bus w) t)" "r \<noteq> None \<longrightarrow> 0 < k"
    by (auto simp: fan_result_def append_message_def)
  then show ?thesis by blast
qed

section \<open>The depth bound\<close>

lemma run_deeper:
  assumes "\<And>w t m s out. p w t m s = Some out \<Longrightarrow> p' w t m s = Some out"
  shows "run p a b w = Some out \<Longrightarrow> run p' a b w = Some out"
proof (induction b arbitrary: w)
  case (Send t m k h)
  from Send.prems obtain w1 r1 where s: "p w t m (name a) = Some (w1, r1)"
    by (auto simp: send_def split: option.splits)
  then have s': "p' w t m (name a) = Some (w1, r1)" by (rule assms)
  show ?case
  proof (cases r1)
    case None
    with s Send.prems have "run p a k w1 = Some out" by (simp add: send_def)
    then have "run p' a k w1 = Some out" by (rule Send.IH(1))
    with s' None show ?thesis by (simp add: send_def)
  next
    case (Some e)
    with s Send.prems have "run p a (h e) w1 = Some out" by (simp add: send_def)
    then have "run p' a (h e) w1 = Some out" by (rule Send.IH(2) [OF rangeI])
    with s' Some show ?thesis by (simp add: send_def)
  qed
qed simp_all

lemma receive_deeper:
  assumes "\<And>w t m s out. p w t m s = Some out \<Longrightarrow> p' w t m s = Some out"
    and "receive p a t m s w = Some out"
  shows "receive p' a t m s w = Some out"
proof (cases "should_handle a t m = Inr True")
  case True
  with assms(2) obtain out' where r: "run p a (process_message a t m s) w = Some out'"
    by (auto simp: receive_def split: option.splits)
  from run_deeper [of p p', OF assms(1) r] r True assms(2) show ?thesis
    by (simp add: receive_def)
next
  case False
  with assms(2) show ?thesis
    by (auto simp: receive_def split: sum.splits bool.splits)
qed

lemma fanout_deeper:
  assumes "\<And>w t m s out. p w t m s = Some out \<Longrightarrow> p' w t m s = Some out"
  shows "fanout p i subs t m s w = Some out \<Longrightarrow> fanout p' i subs t m s w = Some out"
proof (induction subs arbitrary: w)
  case (Cons a as)
  from Cons.prems obtain w1 r1 where r: "receive p a t m s (note_call i a w) = Some (w1, r1)"
    by (auto split: option.splits)
  from receive_deeper [of p p', OF assms r] have r': "receive p' a t m s (note_call i a w) = Some (w1, r1)" .
  show ?case
  proof (cases r1)
    case None
    with r Cons.prems have "fanout p i as t m s w1 = Some out" by simp
    then have "fanout p' i as t m s w1 = Some out" by (rule Cons.IH)
    with r' None show ?thesis by simp
  next
    case (Some e)
    with r Cons.prems have "out = (w1, Some e)" by simp
    with r' Some show ?thesis by simp
  qed
qed simp

text \<open>A publish that completes within a depth completes, with the same result, within any larger one.\<close>

lemma publish_Suc: "publish n w t m s = Some out \<Longrightarrow> publish (Suc n) w t m s = Some out"
proof (induction n arbitrary: w t m s out)
  case 0
  then show ?case by simp
next
  case (Suc n)
  show ?case
  proof (cases "subscribers (bus w) t")
    case None
    with Suc.prems show ?thesis by (simp add: Let_def append_message_def)
  next
    case (Some subs)
    with Suc.prems have "fanout (publish n) (length (messages (bus w))) subs t m s (append_message (t, m, s) w) = Some out"
      by (simp add: Let_def append_message_def)
    then have "fanout (publish (Suc n)) (length (messages (bus w))) subs t m s (append_message (t, m, s) w) = Some out"
      using Suc.IH by (rule fanout_deeper [rotated])
    with Some show ?thesis by (simp add: Let_def append_message_def)
  qed
qed

lemma publish_deeper: "n \<le> k \<Longrightarrow> publish n w t m s = Some out \<Longrightarrow> publish k w t m s = Some out"
  by (induction k) (auto simp: le_Suc_eq dest: publish_Suc simp del: publish.simps)

section \<open>Publishes that return\<close>

lemma settles_cong: "subscribers b' = subscribers b \<Longrightarrow> settles rank b' = settles rank b"
  by (simp add: settles_def subscribers_of_def)

lemma pub_keeps_subscribers:
  "sound_pub pub \<Longrightarrow> pub w t m s = Some (w', r) \<Longrightarrow> subscribers (bus w') = subscribers (bus w)"
  unfolding sound_pub_def grows_def by blast

lemma run_returns:
  assumes sp: "sound_pub pub" and tot: "returns_below pub S rank r"
  shows "sends_below rank r (name a) p \<Longrightarrow> subscribers (bus w) = S \<Longrightarrow> \<exists>out. run pub a p w = Some out"
proof (induction p arbitrary: w)
  case (Send t m k h)
  from Send.prems(1) have lt: "rank (t, m, name a) < r" and sk: "sends_below rank r (name a) k"
    and sh: "\<forall>e. sends_below rank r (name a) (h e)"
    by simp_all
  from tot Send.prems(2) lt obtain w1 r1 where p: "pub w t m (name a) = Some (w1, r1)"
    unfolding returns_below_def by fastforce
  from pub_keeps_subscribers [OF sp p] Send.prems(2) have s1: "subscribers (bus w1) = S" by simp
  show ?case
  proof (cases r1)
    case None
    from sk s1 have "\<exists>out. run pub a k w1 = Some out" by (rule Send.IH(1))
    with p None show ?thesis by (simp add: send_def)
  next
    case (Some e)
    from sh have "sends_below rank r (name a) (h e)" by simp
    from this s1 have "\<exists>out. run pub a (h e) w1 = Some out" by (rule Send.IH(2) [OF rangeI])
    with p Some show ?thesis by (simp add: send_def)
  qed
qed simp_all

lemma receive_returns:
  assumes sp: "sound_pub pub" and tot: "returns_below pub S rank r"
    and sb: "should_handle a t m = Inr True \<longrightarrow> sends_below rank r (name a) (process_message a t m s)"
    and S: "subscribers (bus w) = S"
  shows "\<exists>out. receive pub a t m s w = Some out"
proof (cases "should_handle a t m = Inr True")
  case True
  with sb have "sends_below rank r (name a) (process_message a t m s)" by simp
  from run_returns [OF sp tot this S]
  obtain out where "run pub a (process_message a t m s) w = Some out" by blast
  with True show ?thesis by (cases out) (simp add: receive_def)
next
  case False
  then show ?thesis by (auto simp: receive_def split: sum.splits bool.splits)
qed

lemma fanout_returns:
  assumes sp: "sound_pub pub" and tot: "returns_below pub S rank r"
  shows "\<forall>a\<in>set subs. should_handle a t m = Inr True \<longrightarrow>
           sends_below rank r (name a) (process_message a t m s) \<Longrightarrow>
         subscribers (bus w) = S \<Longrightarrow> \<exists>out. fanout pub i subs t m s w = Some out"
proof (induction subs arbitrary: w)
  case Nil
  show ?case by simp
next
  case (Cons a as)
  have S0: "subscribers (bus (note_call i a w)) = S"
    using Cons.prems(2) by (simp add: note_call_def)
  from Cons.prems(1) have sb: "should_handle a t m = Inr True \<longrightarrow>
      sends_below rank r (name a) (process_message a t m s)" by simp
  from receive_returns [OF sp tot sb S0]
  obtain w1 r1 where rc: "receive pub a t m s (note_call i a w) = Some (w1, r1)" by force
  from receive_grows [OF sp rc] S0 have S1: "subscribers (bus w1) = S" by (simp add: grows_def)
  show ?case
  proof (cases r1)
    case None
    from Cons.prems(1) have "\<forall>a\<in>set as. should_handle a t m = Inr True \<longrightarrow>
        sends_below rank r (name a) (process_message a t m s)" by simp
    from this S1 have "\<exists>out. fanout pub i as t m s w1 = Some out" by (rule Cons.IH)
    with rc None show ?thesis by simp
  next
    case (Some e)
    with rc show ?thesis by simp
  qed
qed

text \<open>On a bus that settles, a publish returns at every depth above the rank of its message.\<close>

lemma publish_returns:
  "settles rank (bus w) \<Longrightarrow> rank (t, m, s) < d \<Longrightarrow> \<exists>out. publish d w t m s = Some out"
proof (induction d arbitrary: w t m s)
  case 0
  then show ?case by simp
next
  case (Suc n)
  let ?w1 = "append_message (t, m, s) w"
  let ?S = "subscribers (bus w)"
  have tot: "returns_below (publish n) ?S rank (rank (t, m, s))"
    unfolding returns_below_def
  proof (intro allI impI)
    fix w' :: world and t' m' s'
    assume S: "subscribers (bus w') = ?S" and lt: "rank (t', m', s') < rank (t, m, s)"
    from settles_cong [OF S] Suc.prems(1) have "settles rank (bus w')" by simp
    moreover from lt Suc.prems(2) have "rank (t', m', s') < n" by simp
    ultimately show "\<exists>out. publish n w' t' m' s' = Some out" by (rule Suc.IH)
  qed
  show ?case
  proof (cases "subscribers (bus w) t")
    case None
    then show ?thesis by (simp add: Let_def append_message_def)
  next
    case (Some subs)
    then have subs: "subscribers_of (bus w) t = subs" by (simp add: subscribers_of_def)
    from Suc.prems(1) subs
    have sb: "\<forall>a\<in>set subs. should_handle a t m = Inr True \<longrightarrow>
        sends_below rank (rank (t, m, s)) (name a) (process_message a t m s)"
      by (auto simp: settles_def)
    have S1: "subscribers (bus ?w1) = ?S" by (simp add: append_message_def)
    from fanout_returns [OF publish_sound tot sb S1]
    have "\<exists>out. fanout (publish n) (length (messages (bus w))) subs t m s ?w1 = Some out" .
    with Some show ?thesis by (simp add: Let_def append_message_def)
  qed
qed

section \<open>A bus on which nothing but an Exception is raised\<close>





lemma except_Exception_None: "except_Exception r = None \<longleftrightarrow> (\<forall>e. r = Some e \<longrightarrow> caught e)"
  by (cases r) (simp_all add: except_Exception_def)









section \<open>The loop on a list in two parts\<close>

lemma fanout_append:
  "fanout pub i (xs @ ys) t m s w =
     (case fanout pub i xs t m s w of
        None \<Rightarrow> None
      | Some (w', Some e) \<Rightarrow> Some (w', Some e)
      | Some (w', None) \<Rightarrow> fanout pub i ys t m s w')"
  by (induction xs arbitrary: w) (auto split: option.splits)

lemmas scenario_defs =
  two_desks_def three_desks_def picky_desks_def subscribe_def fresh_def empty_bus_def relay_def
  faulty_def fatal_def picky_def ping_agent_def subscribers_of_def append_message_def note_call_def
  receive_def send_def logged_def Let_def ask_def memo_def delivered_to_def new_calls_def
  except_Exception_def

lemma new_calls_append: "calls w' = calls w @ cs \<Longrightarrow> new_calls w w' = cs"
  by (simp add: new_calls_def)




section \<open>Claims about the bus\<close>













text \<open>
  C10. The \<open>try\<close> of \<open>receive\<close> does not cover \<open>should_handle\<close>. When \<open>should_handle\<close>
  of an agent \<open>a\<close> raises \<open>e\<close> on the message, \<open>receive\<close> raises \<open>e\<close> in every state; the
  loop of \<open>publish\<close>, on reaching \<open>a\<close>, notes the call and raises \<open>e\<close> without calling
  any subscriber after \<open>a\<close>; and so does \<open>publish\<close> when \<open>a\<close> is the first subscriber. With
  subscribers \<open>pre\<close> before \<open>a\<close> on a bus that settles, the publish returns at every depth
  above the rank of the message, and it raises, having called \<open>receive\<close> only on
  subscribers among \<open>pre\<close> and \<open>a\<close>.
\<close>

theorem should_handle_failure_aborts_fanout:
  assumes "should_handle a t m = Inl e"
  shows "(\<forall>pub w0. receive pub a t m s w0 = Some (w0, Some e)) \<and>
         (\<forall>pub i post w0. fanout pub i (a # post) t m s w0 = Some (note_call i a w0, Some e)) \<and>
         (\<forall>pub i pre post w0 w1.
            fanout pub i pre t m s w0 = Some (w1, None) \<longrightarrow>
            fanout pub i (pre @ a # post) t m s w0 = Some (note_call i a w1, Some e)) \<and>
         (\<forall>n w post.
            subscribers (bus w) t = Some (a # post) \<longrightarrow>
            publish (Suc n) w t m s
              = Some (note_call (length (messages (bus w))) a (append_message (t, m, s) w), Some e)) \<and>
         (\<forall>rank w pre post d.
            settles rank (bus w) \<and> subscribers (bus w) t = Some (pre @ a # post) \<and> rank (t, m, s) < d \<longrightarrow>
            (\<exists>w' e' k.
               publish d w t m s = Some (w', Some e') \<and> k \<le> Suc (length pre) \<and>
               delivered_to (length (messages (bus w))) (new_calls w w') = map name (take k (pre @ [a]))))"
proof (intro conjI allI impI)
  fix pub and w0 :: world
  from assms show "receive pub a t m s w0 = Some (w0, Some e)"
    by (simp add: receive_def)
next
  fix pub i post and w0 :: world
  from assms show "fanout pub i (a # post) t m s w0 = Some (note_call i a w0, Some e)"
    by (simp add: receive_def)
next
  fix pub i pre post and w0 w1 :: world
  assume "fanout pub i pre t m s w0 = Some (w1, None)"
  with assms show "fanout pub i (pre @ a # post) t m s w0 = Some (note_call i a w1, Some e)"
    by (simp add: fanout_append receive_def)
next
  fix n and w :: world and post
  assume "subscribers (bus w) t = Some (a # post)"
  with assms show "publish (Suc n) w t m s
      = Some (note_call (length (messages (bus w))) a (append_message (t, m, s) w), Some e)"
    by (simp add: Let_def append_message_def receive_def note_call_def)
next
  fix rank and w :: world and pre post d
  assume h: "settles rank (bus w) \<and> subscribers (bus w) t = Some (pre @ a # post) \<and> rank (t, m, s) < d"
  let ?i = "length (messages (bus w))"
  let ?w1 = "append_message (t, m, s) w"
  from h obtain w' r where p: "publish d w t m s = Some (w', r)"
    using publish_returns [of rank w t m s d] by auto
  from h obtain n where d: "d = Suc n" by (cases d) auto
  from p d h have f: "fanout (publish n) ?i (pre @ a # post) t m s ?w1 = Some (w', r)"
    by (simp add: Let_def append_message_def)
  then obtain w2 r2 where f1: "fanout (publish n) ?i pre t m s ?w1 = Some (w2, r2)"
    by (auto simp: fanout_append split: option.splits)
  have i: "?i < length (messages (bus ?w1))" by (simp add: append_message_def)
  from h have "subscribers (bus w) t = Some (pre @ a # post)" by simp
  then have "name ` set (pre @ a # post) \<subseteq> agent_names (bus w)"
    by (rule subscribers_named)
  then have n1: "name ` set pre \<subseteq> agent_names (bus w)" by auto
  have n2: "agent_names (bus ?w1) \<subseteq> agent_names (bus w)"
    by (simp add: append_message_def agent_names_def)
  from fanout_result [OF publish_sound i n1 n2 f1]
  obtain cs k where
    cs: "calls w2 = calls w @ cs" and k: "k \<le> length pre"
    and del: "delivered_to ?i cs = map name (take k pre)"
    and all: "r2 = None \<longrightarrow> k = length pre"
    by (auto simp: fan_result_def append_message_def)
  show "\<exists>w' e' k. publish d w t m s = Some (w', Some e') \<and> k \<le> Suc (length pre) \<and>
      delivered_to ?i (new_calls w w') = map name (take k (pre @ [a]))"
  proof (cases r2)
    case (Some e2)
    with f f1 have "w' = w2" "r = Some e2" by (simp_all add: fanout_append)
    with p cs k del show ?thesis
      by (intro exI [of _ w2] exI [of _ e2] exI [of _ k]) (simp add: new_calls_def)
  next
    case None
    with f f1 assms have "w' = note_call ?i a w2" "r = Some e"
      by (simp_all add: fanout_append receive_def)
    moreover from None all del have "delivered_to ?i (cs @ [(?i, name a)]) = map name (take (Suc (length pre)) (pre @ [a]))"
      by (simp add: delivered_to_def)
    ultimately show ?thesis using p cs
      by (intro exI [of _ "note_call ?i a w2"] exI [of _ e] exI [of _ "Suc (length pre)"])
         (simp add: new_calls_def note_call_def)
  qed
qed

theorem should_handle_failure_aborts_fanout_witness:
  "receive (publish 1) (picky ''second'') ''news_request'' no_symbol ''System'' fresh
     = Some (fresh, Some (Exception ''KeyError'')) \<and>
   fanout (publish 1) 0 [picky ''second'', relay ''third'' ''peer_analysis'' (memo ''C'')]
       ''news_request'' no_symbol ''System'' fresh
     = Some (note_call 0 (picky ''second'') fresh, Some (Exception ''KeyError'')) \<and>
   publish 2 picky_desks ''news_request'' no_symbol ''System''
     = Some (picky_desks_after, Some (Exception ''KeyError'')) \<and>
   map name (subscribers_of (bus picky_desks) ''news_request'') = [''first'', ''second'', ''third''] \<and>
   delivered_to 0 (new_calls picky_desks picky_desks_after) = [''first'', ''second'']"
proof -
  have sh: "should_handle (picky ''second'') ''news_request'' no_symbol = Inl (Exception ''KeyError'')"
    by (simp add: picky_def no_symbol_def)
  note abort = should_handle_failure_aborts_fanout [OF sh, of "''System''"]
  from abort have a: "receive (publish 1) (picky ''second'') ''news_request'' no_symbol ''System'' fresh
      = Some (fresh, Some (Exception ''KeyError''))"
    by blast
  from abort have b: "fanout (publish 1) 0 [picky ''second'', relay ''third'' ''peer_analysis'' (memo ''C'')]
       ''news_request'' no_symbol ''System'' fresh
     = Some (note_call 0 (picky ''second'') fresh, Some (Exception ''KeyError''))"
    by blast
  have p: "publish 2 picky_desks ''news_request'' no_symbol ''System''
             = Some (picky_desks_after, Some (Exception ''KeyError''))"
    by (simp add: numeral_2_eq_2 picky_desks_after_def no_symbol_def scenario_defs)
  have l: "map name (subscribers_of (bus picky_desks) ''news_request'') = [''first'', ''second'', ''third'']"
    "delivered_to 0 (new_calls picky_desks picky_desks_after) = [''first'', ''second'']"
    by (simp_all add: picky_desks_after_def scenario_defs)
  from a b p l show ?thesis by simp
qed

text \<open>
  C7. The ping scenario, for any agent name and any depth bound of at least two: the log is
  exactly the ping followed by the pong with \<open>n = 2\<close>, sent under the agent's name. The
  second scenario shows the order of nested publishes: \<open>a\<close> and \<open>b\<close> subscribe to \<open>ping\<close>,
  \<open>c\<close> to \<open>pong\<close>; what \<open>a\<close> publishes, and what \<open>c\<close> publishes in reaction, is logged
  before \<open>b\<close> gets its turn.
\<close>

theorem ping_pong_log:
  "publish (Suc (Suc k)) (subscribe (ping_agent nm) ''ping'' fresh) ''ping'' [''n'' \<mapsto> PInt 1] ''test''
     = Some (logged [(''ping'', [''n'' \<mapsto> PInt 1], ''test''), (''pong'', [''n'' \<mapsto> PInt 2], nm)]
                    [(0, nm)] (subscribe (ping_agent nm) ''ping'' fresh), None) \<and>
   publish (Suc (Suc (Suc k))) nested_desks ''ping'' Map.empty ''test''
     = Some (logged [(''ping'', Map.empty, ''test''), (''pong'', Map.empty, ''a''),
                     (''deep'', Map.empty, ''c''), (''late'', Map.empty, ''b'')]
                    [(0, ''a''), (1, ''c''), (0, ''b'')] nested_desks, None)"
  by (simp add: nested_desks_def scenario_defs)

section \<open>The cache between a set and a get\<close>

lemma cache_save [simp]: "cache (fst (save_cache c)) = cache c"
  by (simp add: save_cache_def)

lemma cache_set:
  "cache (fst (set' c now key v ttl)) =
     (if representable now ttl then (cache c)(key \<mapsto> \<lparr>data = v, expiry = now + 1000000 * ttl\<rparr>)
      else cache c)"
  by (simp add: set'_def)

lemma cache_delete: "cache (fst (delete c key)) = (cache c)(key := None)"
  by (auto simp: delete_def)

lemma cache_clean:
  "cache (clean_expired now c) k =
     (case cache c k of None \<Rightarrow> None | Some e \<Rightarrow> if expiry e \<le> now then None else Some e)"
  by (simp add: clean_expired_def)

lemma cache_get: "cache (snd (get c now1 now2 k)) = cache (clean_expired now1 c)"
  by (simp add: get_def Let_def)

lemma held_step: "between key now x \<Longrightarrow> held v ex key now c \<Longrightarrow> held v ex key now (apply_call c x)"
  by (cases x) (auto simp: held_def cache_set cache_delete cache_get cache_clean split: if_splits)

lemma held_calls: "list_all (between key now) cs \<Longrightarrow> held v ex key now c \<Longrightarrow> held v ex key now (apply_calls c cs)"
  unfolding apply_calls_def by (induction cs arbitrary: c) (auto intro: held_step)

lemma get_held:
  "held v ex key now2 c \<Longrightarrow> now1 \<le> now2 \<Longrightarrow>
   fst (get c now1 now2 key) = (if now2 < ex then v else PNone)"
  by (auto simp: held_def get_def Let_def cache_clean)

lemma get_expired:
  "cache c k = Some e \<Longrightarrow> expiry e \<le> now2 \<Longrightarrow> fst (get c now1 now2 k) = PNone"
  by (simp add: get_def Let_def cache_clean)

section \<open>Claims about the cache\<close>

text \<open>
  C5, as stated, fails: a \<open>ttl\<close> of \<open>10^18\<close> seconds, set in November 2026, and a \<open>get\<close>
  two microseconds later. The time is before set-time plus \<open>ttl\<close>, but \<open>set\<close> raised
  \<open>OverflowError\<close> and stored nothing, and \<open>get\<close> returns absence.
\<close>

theorem set_overflow_stores_nothing:
  "set' no_cache 63929260800000000 ''x'' (PStr ''v1'') 1000000000000000000
     = (no_cache, Some (Exception ''OverflowError'')) \<and>
   fst (get (fst (set' no_cache 63929260800000000 ''x'' (PStr ''v1'') 1000000000000000000))
          63929260800000001 63929260800000002 ''x'') = PNone \<and>
   (63929260800000002 :: int) < 63929260800000000 + 1000000 * 1000000000000000000"
  by (simp add: set'_def representable_def timedelta_max_def timedelta_min_def datetime_max_def
      get_def clean_expired_def no_cache_def)

text \<open>
  C5, amended. Take \<open>set(key, v, ttl)\<close> at time \<open>ts\<close>, followed by any number of writes
  and deletes of other keys and of reads, and then a \<open>get(key)\<close> whose clock readings are
  not earlier than those of the reads before it. When \<open>ts + ttl\<close> is a \<open>datetime\<close>, the
  \<open>get\<close> returns \<open>v\<close> if its time is strictly before \<open>ts + ttl\<close> and absence otherwise.
  When it is not, \<open>set\<close> raises \<open>OverflowError\<close> and leaves the cache as it was. And on
  every cache, \<open>get\<close> returns absence for a key whose entry is at or past its expiry.
\<close>

theorem get_returns_latest_set_until_expiry:
  assumes "list_all (between key now2) cs" and "now1 \<le> now2"
  shows "(representable ts ttl \<longrightarrow>
            fst (get (apply_calls (fst (set' c ts key v ttl)) cs) now1 now2 key)
              = (if now2 < ts + 1000000 * ttl then v else PNone)) \<and>
         (\<not> representable ts ttl \<longrightarrow> set' c ts key v ttl = (c, Some (Exception ''OverflowError''))) \<and>
         (\<forall>c' k e. cache c' k = Some e \<and> expiry e \<le> now2 \<longrightarrow> fst (get c' now1 now2 k) = PNone)"
proof (intro conjI impI)
  assume "representable ts ttl"
  then have "held v (ts + 1000000 * ttl) key now2 (fst (set' c ts key v ttl))"
    by (simp add: held_def cache_set)
  with assms(1) have "held v (ts + 1000000 * ttl) key now2 (apply_calls (fst (set' c ts key v ttl)) cs)"
    by (rule held_calls)
  then show "fst (get (apply_calls (fst (set' c ts key v ttl)) cs) now1 now2 key)
           = (if now2 < ts + 1000000 * ttl then v else PNone)"
    using assms(2) by (rule get_held)
next
  assume "\<not> representable ts ttl"
  then show "set' c ts key v ttl = (c, Some (Exception ''OverflowError''))"
    by (simp add: set'_def)
next
  show "\<forall>c' k e. cache c' k = Some e \<and> expiry e \<le> now2 \<longrightarrow> fst (get c' now1 now2 k) = PNone"
    by (auto intro: get_expired)
qed

theorem get_returns_latest_set_until_expiry_witness:
  "representable 0 3 \<and>
   fst (get (apply_calls (fst (set' no_cache 0 ''x'' (PStr ''v1'') 3)) quotes) 2999998 2999999 ''x'')
     = PStr ''v1'' \<and>
   fst (get (apply_calls (fst (set' no_cache 0 ''x'' (PStr ''v1'') 3)) quotes) 2999999 3000000 ''x'')
     = PNone \<and>
   fst (get (fst (set' (apply_calls (fst (set' no_cache 0 ''x'' (PStr ''v1'') 3)) quotes)
                   3000001 ''x'' (PStr ''v2'') 1)) 3000002 3000003 ''x'')
     = PStr ''v2''"
proof -
  have alive: "list_all (between ''x'' 2999999) quotes" and gone: "list_all (between ''x'' 3000000) quotes"
    by (simp_all add: quotes_def)
  have again: "list_all (between ''x'' 3000003) []"
    by simp
  have none: "apply_calls c [] = c" for c
    by (simp add: apply_calls_def)
  have fits: "representable 0 3" "representable 3000001 1"
    by (simp_all add: representable_def timedelta_min_def timedelta_max_def datetime_max_def)
  from get_returns_latest_set_until_expiry [OF alive, of 2999998 0 3 no_cache "PStr ''v1''"] fits
  have 1: "fst (get (apply_calls (fst (set' no_cache 0 ''x'' (PStr ''v1'') 3)) quotes) 2999998 2999999 ''x'')
     = PStr ''v1''" by simp
  from get_returns_latest_set_until_expiry [OF gone, of 2999999 0 3 no_cache "PStr ''v1''"] fits
  have 2: "fst (get (apply_calls (fst (set' no_cache 0 ''x'' (PStr ''v1'') 3)) quotes) 2999999 3000000 ''x'')
     = PNone" by simp
  from get_returns_latest_set_until_expiry [OF again, of 3000002 3000001 1
      "apply_calls (fst (set' no_cache 0 ''x'' (PStr ''v1'') 3)) quotes" "PStr ''v2''"] fits
  have 3: "fst (get (fst (set' (apply_calls (fst (set' no_cache 0 ''x'' (PStr ''v1'') 3)) quotes)
                   3000001 ''x'' (PStr ''v2'') 1)) 3000002 3000003 ''x'')
     = PStr ''v2''" by (simp add: none)
  from fits 1 2 3 show ?thesis by simp
qed

text \<open>
  C8. When the file exists and cannot be opened, cannot be unpickled, or unpickles to
  something that is not a dictionary of entries, the body of the \<open>try\<close> in \<open>_load_cache\<close>
  raises, the handler leaves the cache empty, and the construction returns that empty
  cache.
\<close>

theorem unreadable_store_is_empty_store:
  assumes "f \<in> {Unreadable, Corrupt, Malformed}"
  shows "(\<exists>e. load_body now f c = Inl e) \<and>
         cache (load_cache now (c\<lparr>disk := Some f\<rparr>)) = Map.empty \<and>
         new_CacheManager None (Some f) wr now = \<lparr>cache = Map.empty, disk = Some f, writable = wr\<rparr>"
  using assms by (auto simp: load_body_def load_cache_def new_CacheManager_def)

theorem unreadable_store_is_empty_store_witness:
  "new_CacheManager None (Some Corrupt) True 0 = \<lparr>cache = Map.empty, disk = Some Corrupt, writable = True\<rparr> \<and>
   cache (load_cache 0 \<lparr>cache = [''x'' \<mapsto> \<lparr>data = PStr ''v'', expiry = 5\<rparr>], disk = Some Unreadable, writable = True\<rparr>)
     = Map.empty"
proof -
  have 1: "Corrupt \<in> {Unreadable, Corrupt, Malformed}" and 2: "Unreadable \<in> {Unreadable, Corrupt, Malformed}"
    by simp_all
  from unreadable_store_is_empty_store [OF 1, of 0 no_cache True]
       unreadable_store_is_empty_store [OF 2, of 0
          "\<lparr>cache = [''x'' \<mapsto> \<lparr>data = PStr ''v'', expiry = 5\<rparr>], disk = None, writable = True\<rparr>" True]
  show ?thesis by simp
qed

section \<open>The scan of the log\<close>

lemma last_on_Nil [simp]: "last_on T [] = None"
  by (simp add: last_on_def)

lemma last_on_alt:
  "last_on T log =
     (if filter (\<lambda>x. fst x = T) log = [] then None
      else Some (fst (snd (last (filter (\<lambda>x. fst x = T) log)))))"
  by (cases "filter (\<lambda>x. fst x = T) log") (simp_all add: last_on_def)

lemma last_on_snoc [simp]:
  "last_on T (xs @ [x]) = (if fst x = T then Some (fst (snd x)) else last_on T xs)"
  by (simp add: last_on_alt)

lemma collect_dom: "dom (collect an x) = dom an"
  by (cases x) (auto simp: collect_def split: option.splits)

lemma scan_dom: "dom (foldl collect an log) = dom an"
  by (induction log arbitrary: an) (simp_all add: collect_dom)

lemma dom_placeholders: "dom (map_of placeholders) = set result_topics"
  by (simp add: result_topics_def dom_map_of_conv_image_fst)

lemma symbol_not_result: "''symbol'' \<notin> set result_topics"
  by (simp add: result_topics_def placeholders_def)

lemma consolidated_symbol: "consolidated sy log ''symbol'' = Some (PStr sy)"
proof -
  have "''symbol'' \<notin> dom (foldl collect (map_of placeholders) log)"
    using symbol_not_result by (simp add: scan_dom dom_placeholders)
  then show ?thesis by (simp add: consolidated_def map_add_dom_app_simps)
qed

lemma consolidated_dom: "dom (consolidated sy log) = insert ''symbol'' (set result_topics)"
  by (auto simp: consolidated_def scan_dom dom_placeholders)

lemma last_with_Nil [simp]: "last_with field T [] = None"
  by (simp add: last_with_def)

lemma last_with_alt:
  "last_with field T log =
     (if filter (\<lambda>x. fst x = T \<and> fst (snd x) field \<noteq> None) log = [] then None
      else fst (snd (last (filter (\<lambda>x. fst x = T \<and> fst (snd x) field \<noteq> None) log))) field)"
  by (cases "filter (\<lambda>x. fst x = T \<and> fst (snd x) field \<noteq> None) log") (simp_all add: last_with_def)

lemma last_with_snoc [simp]:
  "last_with field T (xs @ [x]) =
     (if fst x = T \<and> fst (snd x) field \<noteq> None then fst (snd x) field else last_with field T xs)"
  by (simp add: last_with_alt)

lemma last_with_last_on:
  "last_on T log = Some msg \<Longrightarrow> msg field = Some v \<Longrightarrow> last_with field T log = Some v"
  by (induction log rule: rev_induct) (auto split: if_splits)

lemma last_with_never: "last_on T log = None \<Longrightarrow> last_with field T log = None"
  by (induction log rule: rev_induct) (auto split: if_splits)

lemma collect_at:
  "an T = Some cur \<Longrightarrow>
   collect an x T =
     (if fst x = T \<and> fst (snd x) ''analysis'' \<noteq> None then fst (snd x) ''analysis'' else Some cur)"
  by (cases x) (auto simp: collect_def split: option.splits)

lemma scan_last_with:
  assumes "an T = Some d"
  shows "foldl collect an log T = (case last_with ''analysis'' T log of None \<Rightarrow> Some d | Some v \<Rightarrow> Some v)"
proof (induction log rule: rev_induct)
  case Nil
  with assms show ?case by simp
next
  case (snoc x xs)
  from assms scan_dom [of an xs] obtain cur where c: "foldl collect an xs T = Some cur"
    by (metis domD domI)
  show ?case
  proof (cases "fst x = T \<and> fst (snd x) ''analysis'' \<noteq> None")
    case True
    then have "foldl collect an (xs @ [x]) T = fst (snd x) ''analysis''"
      using c by (simp add: collect_at)
    moreover from True have "last_with ''analysis'' T (xs @ [x]) = fst (snd x) ''analysis''"
      by simp
    ultimately show ?thesis using True by auto
  next
    case False
    then have "foldl collect an (xs @ [x]) T = foldl collect an xs T"
      using c by (auto simp: collect_at)
    moreover from False have "last_with ''analysis'' T (xs @ [x]) = last_with ''analysis'' T xs"
      by auto
    ultimately show ?thesis using snoc by simp
  qed
qed

lemma consolidated_last_with:
  assumes "T \<in> set result_topics"
  shows "consolidated sy log T =
           (case last_with ''analysis'' T log of None \<Rightarrow> map_of placeholders T | Some v \<Rightarrow> Some v)"
proof -
  from assms obtain d where d: "map_of placeholders T = Some d"
    using dom_placeholders by blast
  then have "T \<in> dom (foldl collect (map_of placeholders) log)" by (auto simp: scan_dom)
  then have "consolidated sy log T = foldl collect (map_of placeholders) log T"
    by (simp add: consolidated_def map_add_dom_app_simps)
  also have "\<dots> = (case last_with ''analysis'' T log of None \<Rightarrow> Some d | Some v \<Rightarrow> Some v)"
    using d by (rule scan_last_with)
  finally show ?thesis using d by (simp split: option.splits)
qed

lemma settles_strategy: "settles (first_round ''analysis_consolidation'') (bus strategy_desk)"
  by (auto simp: settles_def first_round_def strategy_desk_def scenario_defs split: if_splits)

section \<open>Claims about the session\<close>

text \<open>
  C6, as stated, fails: on a log whose last message on \<open>news_analysis\<close> has no \<open>analysis\<close>
  field, the consolidated payload holds the field of an earlier message, not what the last
  message gives (nothing).
\<close>

theorem consolidation_keeps_an_earlier_value:
  "last_on ''news_analysis'' stale_log = Some ask \<and> ask ''analysis'' = None \<and>
   latest_field stale_log ''news_analysis'' ''analysis'' (PStr ''No news analysis available'') = PNone \<and>
   consolidated ''AAPL'' stale_log ''news_analysis'' = Some (PStr ''old'')"
  by (simp add: stale_log_def last_on_def latest_field_def consolidated_def collect_def
      placeholders_def ask_def memo_def)

text \<open>
  C6, amended. The payload that \<open>_consolidate_analyses\<close> publishes has exactly the keys
  \<open>symbol\<close> and the five result topics; \<open>symbol\<close> is the session's symbol, and each result
  topic holds the \<open>analysis\<close> field of the last message on that topic that carries one, or
  the topic's placeholder when no message on it carries one. So it holds the field of the
  last message on the topic whenever that message carries it, and the placeholder whenever
  the log has no message on the topic. On a bus that settles, \<open>_consolidate_analyses\<close>
  returns at every depth above the rank of its message, and the log has then grown by one
  message on \<open>analysis_consolidation\<close> from \<open>System\<close> with that payload, followed only by
  messages that subscribed agents sent in reaction.
\<close>

theorem consolidation_is_complete:
  "dom (consolidated (symbol ss) (messages (bus (sbus ss)))) = insert ''symbol'' (set result_topics) \<and>
   consolidated (symbol ss) (messages (bus (sbus ss))) ''symbol'' = Some (PStr (symbol ss)) \<and>
   (\<forall>T\<in>set result_topics.
      consolidated (symbol ss) (messages (bus (sbus ss))) T =
        (case last_with ''analysis'' T (messages (bus (sbus ss))) of
           None \<Rightarrow> map_of placeholders T
         | Some v \<Rightarrow> Some v)) \<and>
   (\<forall>T\<in>set result_topics. \<forall>msg v.
      last_on T (messages (bus (sbus ss))) = Some msg \<and> msg ''analysis'' = Some v \<longrightarrow>
      consolidated (symbol ss) (messages (bus (sbus ss))) T = Some v) \<and>
   (\<forall>T\<in>set result_topics.
      last_on T (messages (bus (sbus ss))) = None \<longrightarrow>
      consolidated (symbol ss) (messages (bus (sbus ss))) T = map_of placeholders T) \<and>
   (settles rank (bus (sbus ss)) \<and>
    rank (''analysis_consolidation'', consolidated (symbol ss) (messages (bus (sbus ss))), ''System'') < d \<longrightarrow>
      (\<exists>ss' r rest.
         consolidate_analyses (publish d) ss = Some (ss', r) \<and>
         messages (bus (sbus ss')) =
           messages (bus (sbus ss)) @
           (''analysis_consolidation'', consolidated (symbol ss) (messages (bus (sbus ss))), ''System'') # rest \<and>
         (\<forall>x\<in>set rest. snd (snd x) \<in> agent_names (bus (sbus ss)))))"
proof (intro conjI ballI allI impI)
  show "dom (consolidated (symbol ss) (messages (bus (sbus ss)))) = insert ''symbol'' (set result_topics)"
    by (rule consolidated_dom)
next
  show "consolidated (symbol ss) (messages (bus (sbus ss))) ''symbol'' = Some (PStr (symbol ss))"
    by (rule consolidated_symbol)
next
  fix T assume "T \<in> set result_topics"
  then show "consolidated (symbol ss) (messages (bus (sbus ss))) T =
      (case last_with ''analysis'' T (messages (bus (sbus ss))) of
         None \<Rightarrow> map_of placeholders T | Some v \<Rightarrow> Some v)"
    by (rule consolidated_last_with)
next
  fix T msg v
  assume T: "T \<in> set result_topics"
    and "last_on T (messages (bus (sbus ss))) = Some msg \<and> msg ''analysis'' = Some v"
  then have "last_with ''analysis'' T (messages (bus (sbus ss))) = Some v"
    by (auto intro: last_with_last_on)
  with consolidated_last_with [OF T]
  show "consolidated (symbol ss) (messages (bus (sbus ss))) T = Some v" by simp
next
  fix T
  assume T: "T \<in> set result_topics" and "last_on T (messages (bus (sbus ss))) = None"
  then have "last_with ''analysis'' T (messages (bus (sbus ss))) = None"
    by (auto intro: last_with_never)
  with consolidated_last_with [OF T]
  show "consolidated (symbol ss) (messages (bus (sbus ss))) T = map_of placeholders T" by simp
next
  let ?p = "consolidated (symbol ss) (messages (bus (sbus ss)))"
  assume "settles rank (bus (sbus ss)) \<and> rank (''analysis_consolidation'', ?p, ''System'') < d"
  then obtain w r where p: "publish d (sbus ss) ''analysis_consolidation'' ?p ''System'' = Some (w, r)"
    using publish_returns [of rank "sbus ss" "''analysis_consolidation''" ?p "''System''" d] by auto
  then have c: "consolidate_analyses (publish d) ss = Some (ss\<lparr>sbus := w\<rparr>, r)"
    by (simp add: consolidate_analyses_def)
  from publish_result [OF p] obtain rest where
    "messages (bus w) = messages (bus (sbus ss)) @ (''analysis_consolidation'', ?p, ''System'') # rest"
    "\<forall>x\<in>set rest. snd (snd x) \<in> agent_names (bus (sbus ss))"
    by blast
  with c show "\<exists>ss' r rest.
         consolidate_analyses (publish d) ss = Some (ss', r) \<and>
         messages (bus (sbus ss')) =
           messages (bus (sbus ss)) @ (''analysis_consolidation'', ?p, ''System'') # rest \<and>
         (\<forall>x\<in>set rest. snd (snd x) \<in> agent_names (bus (sbus ss)))"
    by (intro exI [of _ "ss\<lparr>sbus := w\<rparr>"] exI [of _ r] exI [of _ rest]) simp
qed

theorem consolidation_is_complete_witness:
  "settles (first_round ''analysis_consolidation'') (bus (sbus closing)) \<and>
   (\<exists>ss' rest.
     consolidate_analyses (publish 2) closing = Some (ss', None) \<and>
     messages (bus (sbus ss')) =
       two_runs @ (''analysis_consolidation'', consolidated ''AAPL'' two_runs, ''System'') # rest) \<and>
   consolidated ''AAPL'' two_runs ''news_analysis'' = Some (PStr ''new'') \<and>
   consolidated ''AAPL'' two_runs ''technical_analysis'' = Some (PStr ''flat'') \<and>
   consolidated ''AAPL'' two_runs ''peer_analysis'' = Some (PStr ''No peer analysis available'') \<and>
   consolidated ''AAPL'' two_runs ''symbol'' = Some (PStr ''AAPL'')"
proof -
  have log: "messages (bus (sbus closing)) = two_runs" and sy: "symbol closing = ''AAPL''"
    by (simp_all add: closing_def strategy_desk_def logged_def)
  have s: "settles (first_round ''analysis_consolidation'') (bus (sbus closing))"
    using settles_strategy by (simp add: closing_def)
  have d: "first_round ''analysis_consolidation''
      (''analysis_consolidation'', consolidated (symbol closing) (messages (bus (sbus closing))), ''System'') < 2"
    by (simp add: first_round_def)
  obtain ss' where fin: "consolidate_analyses (publish 2) closing = Some (ss', None)"
    by (simp add: consolidate_analyses_def closing_def strategy_desk_def numeral_2_eq_2 scenario_defs)
  have topics: "''news_analysis'' \<in> set result_topics" "''technical_analysis'' \<in> set result_topics"
    "''peer_analysis'' \<in> set result_topics"
    by (simp_all add: result_topics_def placeholders_def)
  have last: "last_on ''news_analysis'' two_runs = Some (memo ''new'')"
    "last_on ''technical_analysis'' two_runs = Some (memo ''flat'')"
    "last_on ''peer_analysis'' two_runs = None"
    by (simp_all add: last_on_def two_runs_def)
  have field: "memo ''new'' ''analysis'' = Some (PStr ''new'')" "memo ''flat'' ''analysis'' = Some (PStr ''flat'')"
    by (simp_all add: memo_def)
  have ph: "map_of placeholders ''peer_analysis'' = Some (PStr ''No peer analysis available'')"
    by (simp add: placeholders_def)
  note c = consolidation_is_complete [of closing "first_round ''analysis_consolidation''" 2]
  from c topics last field log sy
  have 1: "consolidated ''AAPL'' two_runs ''news_analysis'' = Some (PStr ''new'')"
    and 2: "consolidated ''AAPL'' two_runs ''technical_analysis'' = Some (PStr ''flat'')"
    by auto
  from c topics last ph log sy
  have 3: "consolidated ''AAPL'' two_runs ''peer_analysis'' = Some (PStr ''No peer analysis available'')"
    and 4: "consolidated ''AAPL'' two_runs ''symbol'' = Some (PStr ''AAPL'')"
    by auto
  from c have "settles (first_round ''analysis_consolidation'') (bus (sbus closing)) \<and>
      first_round ''analysis_consolidation''
        (''analysis_consolidation'', consolidated (symbol closing) (messages (bus (sbus closing))), ''System'') < 2 \<longrightarrow>
      (\<exists>ss' r rest.
         consolidate_analyses (publish 2) closing = Some (ss', r) \<and>
         messages (bus (sbus ss')) =
           messages (bus (sbus closing)) @
           (''analysis_consolidation'', consolidated (symbol closing) (messages (bus (sbus closing))), ''System'') # rest \<and>
         (\<forall>x\<in>set rest. snd (snd x) \<in> agent_names (bus (sbus closing))))"
    by (elim conjE)
  with s d obtain ss2 r rest where
    "consolidate_analyses (publish 2) closing = Some (ss2, r)"
    "messages (bus (sbus ss2)) = messages (bus (sbus closing)) @
       (''analysis_consolidation'', consolidated (symbol closing) (messages (bus (sbus closing))), ''System'') # rest"
    by blast
  with fin log sy have 5: "\<exists>ss' rest.
     consolidate_analyses (publish 2) closing = Some (ss', None) \<and>
     messages (bus (sbus ss')) =
       two_runs @ (''analysis_consolidation'', consolidated ''AAPL'' two_runs, ''System'') # rest"
    by auto
  from s 1 2 3 4 5 show ?thesis by simp
qed

text \<open>
  What \<open>next\<close> picks: the first message on the topic.
\<close>

lemma next_field_first:
  "next_field log T field d =
     (case filter (\<lambda>x. fst x = T) log of
        [] \<Rightarrow> d
      | y # _ \<Rightarrow> (case fst (snd y) field of None \<Rightarrow> PNone | Some v \<Rightarrow> v))"
  by (induction log) simp_all

lemma next_field_absent: "T \<notin> fst ` set log \<Longrightarrow> next_field log T field d = d"
  by (induction log) auto

lemma next_field_single:
  "filter (\<lambda>x. fst x = T) log = [y] \<Longrightarrow> next_field log T field d = latest_field log T field d"
  by (simp add: next_field_first latest_field_def last_on_def)

text \<open>
  C4. A session whose log holds two messages on \<open>news_analysis\<close>, first \<open>old\<close> and then
  \<open>new\<close>: \<open>get_results\<close> reports \<open>old\<close>, the first one, where the most recent message
  is \<open>new\<close>, which is also what \<open>_consolidate_analyses\<close> puts into the consolidated
  payload from the same log. For a topic without a message the entry is the default
  (\<open>None\<close> for \<open>peer_analysis\<close>).
\<close>

theorem get_results_reports_first_message:
  "messages (bus (sbus rerun)) = two_runs \<and>
   get_results rerun ''news_analysis'' = Some (PStr ''old'') \<and>
   latest_field two_runs ''news_analysis'' ''analysis'' (PStr ''No news analysis'') = PStr ''new'' \<and>
   consolidated (symbol rerun) two_runs ''news_analysis'' = Some (PStr ''new'') \<and>
   get_results rerun ''peer_analysis'' = Some PNone"
  by (simp add: rerun_def aapl_def get_results_def latest_field_def last_on_def consolidated_def
      collect_def placeholders_def two_runs_def logged_def fresh_def empty_bus_def memo_def)

text \<open>
  The download of an empty table is published as an empty table.
\<close>

lemma empty_download_is_published:
  assumes "fst (get (scache ss) now1 now2 (''price_data_'' @ symbol ss)) = PNone"
    and "history (symbol ss) (if analysis_type ss = ''short'' then ''60d'' else ''5y'')
           (if analysis_type ss = ''short'' then ''1d'' else ''1wk'') = Inr []"
    and "publish n (sbus ss) ''price_data'' (price_payload (symbol ss) []) ''System'' = Some (w, r)"
  shows "get_price_data (publish n) history now1 now2 now3 ss
           = Some (ss\<lparr>scache := snd (get (scache ss) now1 now2 (''price_data_'' @ symbol ss)), sbus := w\<rparr>,
                   except_Exception r)"
proof -
  obtain cached c where g: "get (scache ss) now1 now2 (''price_data_'' @ symbol ss) = (cached, c)"
    by (cases "get (scache ss) now1 now2 (''price_data_'' @ symbol ss)")
  with assms(1) have "cached = PNone" by simp
  with g assms(2,3) show ?thesis
    by (simp add: get_price_data_def fetch_and_publish_def)
qed

text \<open>
  C3. When the cache holds no price table for the symbol (or an empty one) and the download
  raises, \<open>_get_price_data\<close> returns with the bus exactly as it was: no message on
  \<open>price_data\<close> is appended and no subscriber is called. An instance of \<open>Exception\<close> is
  caught by the handler, which only prints, so that the call returns normally; anything else
  is raised on. The witness runs it on a session with one subscriber of \<open>price_data\<close>, and,
  for comparison, with a download that returns an empty table, which is published.
\<close>

theorem failed_download_publishes_nothing:
  assumes "fst (get (scache ss) now1 now2 (''price_data_'' @ symbol ss)) \<in> {PNone, PFrame []}"
    and "history (symbol ss) (if analysis_type ss = ''short'' then ''60d'' else ''5y'')
           (if analysis_type ss = ''short'' then ''1d'' else ''1wk'') = Inl e"
  shows "get_price_data pub history now1 now2 now3 ss
           = Some (ss\<lparr>scache := snd (get (scache ss) now1 now2 (''price_data_'' @ symbol ss))\<rparr>,
                   if caught e then None else Some e)"
proof -
  obtain cached c where g: "get (scache ss) now1 now2 (''price_data_'' @ symbol ss) = (cached, c)"
    by (cases "get (scache ss) now1 now2 (''price_data_'' @ symbol ss)")
  with assms(1) have "cached = PNone \<or> cached = PFrame []" by simp
  with g assms(2) show ?thesis
    by (auto simp: get_price_data_def fetch_and_publish_def except_Exception_def)
qed

theorem failed_download_publishes_nothing_witness:
  "get_price_data (publish 2) offline 0 0 0 aapl = Some (aapl, None) \<and>
   map name (subscribers_of (bus (sbus aapl)) ''price_data'') = [''MarketAnalyst''] \<and>
   messages (bus (sbus aapl)) = [] \<and> calls (sbus aapl) = [] \<and>
   (\<exists>ss'. get_price_data (publish 2) delisted 0 0 0 aapl = Some (ss', None) \<and>
          take 1 (messages (bus (sbus ss'))) = [(''price_data'', price_payload ''AAPL'' [], ''System'')] \<and>
          calls (sbus ss') = [(0, ''MarketAnalyst'')])"
proof -
  have miss: "fst (get (scache aapl) 0 0 (''price_data_'' @ symbol aapl)) \<in> {PNone, PFrame []}"
    by (simp add: aapl_def no_cache_def get_def clean_expired_def)
  have down: "offline (symbol aapl) (if analysis_type aapl = ''short'' then ''60d'' else ''5y'')
           (if analysis_type aapl = ''short'' then ''1d'' else ''1wk'') = Inl (Exception ''ConnectionError'')"
    by (simp add: offline_def)
  have same: "aapl\<lparr>scache := snd (get (scache aapl) 0 0 (''price_data_'' @ symbol aapl))\<rparr> = aapl"
    by (simp add: aapl_def no_cache_def get_def clean_expired_def)
  from failed_download_publishes_nothing
         [where ss = aapl and ?history = offline and pub = "publish 2" and ?now3.0 = 0, OF miss down] same
  have 1: "get_price_data (publish 2) offline 0 0 0 aapl = Some (aapl, None)" by simp
  have 2: "map name (subscribers_of (bus (sbus aapl)) ''price_data'') = [''MarketAnalyst'']"
    "messages (bus (sbus aapl)) = []" "calls (sbus aapl) = []"
    by (simp_all add: aapl_def market_desk_def scenario_defs)
  have 3: "\<exists>ss'. get_price_data (publish 2) delisted 0 0 0 aapl = Some (ss', None) \<and>
          take 1 (messages (bus (sbus ss'))) = [(''price_data'', price_payload ''AAPL'' [], ''System'')] \<and>
          calls (sbus ss') = [(0, ''MarketAnalyst'')]"
    by (simp add: get_price_data_def fetch_and_publish_def delisted_def aapl_def no_cache_def get_def
        clean_expired_def market_desk_def numeral_2_eq_2 scenario_defs)
  from 1 2 3 show ?thesis by simp
qed

end
